theory Spec2Isabelle
  imports Main "HOL-Library.AList" "HOL-Library.Sublist"
begin

section \<open>Python values and dictionaries\<close>

text \<open>
  The log events, breadcrumbs and transactions handled by the package are Python
  dictionaries with text keys. A dictionary is an association list in insertion order
  whose keys are pairwise distinct (\<open>is_dict\<close>); a value is one of the JSON-like Python
  values or an opaque object (a log record, say) that has no string or mapping methods.
  Strings are lists of bytes, the UTF-8 encoding of the text: splitting at a hyphen, the test
  for a leading underscore, the substring test and equality read the same on the encoding as
  on the text.
\<close>

datatype pyval =
    VNone
  | VBool bool
  | VInt int
  | VStr string
  | VList "pyval list"
  | VDict "(string \<times> pyval) list"
  | VObj string

type_synonym event = "(string \<times> pyval) list"

datatype py_error =
    AttributeError
  | KeyError
  | IndexError
  | TypeError
  | ValueError
  | PlainException string

definition is_dict :: "event \<Rightarrow> bool" where
  "is_dict d = distinct (map fst d)"

text \<open>Sequencing of two steps either of which may raise.\<close>

definition bind_err :: "py_error + 'a \<Rightarrow> ('a \<Rightarrow> py_error + 'b) \<Rightarrow> py_error + 'b" where
  "bind_err m f = (case m of Inl e \<Rightarrow> Inl e | Inr x \<Rightarrow> f x)"

text \<open>\<^verbatim>\<open>bool(v)\<close>: Python truthiness.\<close>

fun truthy :: "pyval \<Rightarrow> bool" where
  "truthy VNone = False"
| "truthy (VBool b) = b"
| "truthy (VInt n) = (n \<noteq> 0)"
| "truthy (VStr s) = (s \<noteq> [])"
| "truthy (VList xs) = (xs \<noteq> [])"
| "truthy (VDict d) = (d \<noteq> [])"
| "truthy (VObj n) = True"

text \<open>\<^verbatim>\<open>k in d\<close>, \<^verbatim>\<open>d.get(k, default)\<close>, \<^verbatim>\<open>d[k] = v\<close>, \<^verbatim>\<open>d.pop(k)\<close> and
  \<^verbatim>\<open>d.pop(k, None)\<close> on a dictionary.\<close>

definition has_key :: "event \<Rightarrow> string \<Rightarrow> bool" where
  "has_key d k = (map_of d k \<noteq> None)"

definition dict_get :: "event \<Rightarrow> string \<Rightarrow> pyval \<Rightarrow> pyval" where
  "dict_get d k dflt = (case map_of d k of None \<Rightarrow> dflt | Some v \<Rightarrow> v)"

definition dict_set :: "event \<Rightarrow> string \<Rightarrow> pyval \<Rightarrow> event" where
  "dict_set d k v = AList.update k v d"

definition dict_pop :: "event \<Rightarrow> string \<Rightarrow> py_error + (pyval \<times> event)" where
  "dict_pop d k = (case map_of d k of None \<Rightarrow> Inl KeyError | Some v \<Rightarrow> Inr (v, AList.delete k d))"

definition dict_pop_default :: "event \<Rightarrow> string \<Rightarrow> event" where
  "dict_pop_default d k = AList.delete k d"

text \<open>\<^verbatim>\<open>v.get(k, default)\<close> on an arbitrary value: only a mapping has the method.\<close>

fun val_get :: "pyval \<Rightarrow> string \<Rightarrow> pyval \<Rightarrow> py_error + pyval" where
  "val_get (VDict d) k dflt = Inr (dict_get d k dflt)"
| "val_get _ k dflt = Inl AttributeError"

text \<open>
  \<^verbatim>\<open>s.upper()\<close> and \<^verbatim>\<open>s.lower()\<close>: only text has the methods. The case mappings themselves are
  the language's, over all of Unicode, and are not part of the package: every function that
  calls one takes it as its first argument (\<open>upper\<close>, \<open>lower\<close>), and the properties below
  hold for every such mapping.
\<close>

fun str_upper :: "(string \<Rightarrow> string) \<Rightarrow> pyval \<Rightarrow> py_error + pyval" where
  "str_upper upper (VStr s) = Inr (VStr (upper s))"
| "str_upper upper _ = Inl AttributeError"

fun str_lower :: "(string \<Rightarrow> string) \<Rightarrow> pyval \<Rightarrow> py_error + string" where
  "str_lower lower (VStr s) = Inr (lower s)"
| "str_lower lower _ = Inl AttributeError"

text \<open>\<^verbatim>\<open>needle in v\<close> for a text needle: substring of a text, element of a list, key of a
  mapping; any other value is not iterable.\<close>

fun py_contains :: "string \<Rightarrow> pyval \<Rightarrow> py_error + bool" where
  "py_contains needle (VStr s) = Inr (sublist needle s)"
| "py_contains needle (VList xs) = Inr (VStr needle \<in> set xs)"
| "py_contains needle (VDict d) = Inr (has_key d needle)"
| "py_contains needle _ = Inl TypeError"

text \<open>\<^verbatim>\<open>key.startswith("_")\<close>.\<close>

definition startswith_underscore :: "string \<Rightarrow> bool" where
  "startswith_underscore key = (case key of [] \<Rightarrow> False | c # _ \<Rightarrow> c = CHR ''_'')"

text \<open>\<^verbatim>\<open>s.split(sep)\<close> for a one-character separator: every occurrence splits, empty
  segments are kept, and the result is never empty.\<close>

fun split_on :: "char \<Rightarrow> string \<Rightarrow> string list" where
  "split_on sep [] = [[]]"
| "split_on sep (c # cs) =
     (if c = sep then [] # split_on sep cs
      else (case split_on sep cs of [] \<Rightarrow> [[c]] | w # ws \<Rightarrow> (c # w) # ws))"

section \<open>The processors of \<^verbatim>\<open>_processors.py\<close>\<close>

definition STANDARD_FIELDS :: "string set" where
  "STANDARD_FIELDS =
     {''timestamp'', ''log_level'', ''service_name'', ''message'', ''trace_id'', ''logger''}"

definition remove_processors_meta_safe :: "event \<Rightarrow> event" where
  "remove_processors_meta_safe event_dict =
     dict_pop_default (dict_pop_default event_dict ''_record'') ''_from_structlog''"

text \<open>The three guarded moves of \<^verbatim>\<open>rename_and_flatten_fields\<close>, in the order of the source.
  The right-hand side of each assignment is evaluated (pop, then \<^verbatim>\<open>upper\<close>) before the key
  is stored.\<close>

definition rename_event :: "event \<Rightarrow> py_error + event" where
  "rename_event event_dict =
     (if has_key event_dict ''event''
      then bind_err (dict_pop event_dict ''event'') (\<lambda>(v, d). Inr (dict_set d ''message'' v))
      else Inr event_dict)"

definition rename_logger_name :: "event \<Rightarrow> py_error + event" where
  "rename_logger_name event_dict =
     (if has_key event_dict ''logger_name''
      then bind_err (dict_pop event_dict ''logger_name'')
             (\<lambda>(v, d). Inr (dict_set d ''logger_name'' v))
      else Inr event_dict)"

definition rename_level :: "(string \<Rightarrow> string) \<Rightarrow> event \<Rightarrow> py_error + event" where
  "rename_level upper event_dict =
     (if has_key event_dict ''level''
      then bind_err (dict_pop event_dict ''level'')
             (\<lambda>(v, d). bind_err (str_upper upper v) (\<lambda>u. Inr (dict_set d ''log_level'' u)))
      else Inr event_dict)"

definition rename_and_flatten_fields :: "(string \<Rightarrow> string) \<Rightarrow> event \<Rightarrow> py_error + event" where
  "rename_and_flatten_fields upper event_dict =
     bind_err (rename_event event_dict)
       (\<lambda>d1. bind_err (rename_logger_name d1) (rename_level upper))"

text \<open>
  The tracing context that \<^verbatim>\<open>add_sentry_trace_id\<close> consults is outside the package: the
  lookup of the current scope raises, or yields a false scope, or a scope whose
  \<^verbatim>\<open>get_traceparent\<close> raises or returns a value (\<open>VNone\<close> when there is no header).
\<close>

datatype trace_ctx =
    ScopeRaises py_error
  | ScopeFalsy
  | TraceparentRaises py_error
  | Traceparent pyval

text \<open>The body of the \<^verbatim>\<open>try\<close> block.\<close>

fun trace_try :: "trace_ctx \<Rightarrow> event \<Rightarrow> py_error + event" where
  "trace_try (ScopeRaises e) event_dict = Inl e"
| "trace_try ScopeFalsy event_dict = Inr event_dict"
| "trace_try (TraceparentRaises e) event_dict = Inl e"
| "trace_try (Traceparent tp) event_dict =
     (if truthy tp then
        (case tp of
           VStr s \<Rightarrow>
             (case split_on CHR ''-'' s of
                trace_id # span_id # _ \<Rightarrow>
                  Inr (dict_set (dict_set event_dict ''trace_id'' (VStr trace_id))
                         ''span_id'' (VStr span_id))
              | _ \<Rightarrow> Inl IndexError)
         | _ \<Rightarrow> Inl AttributeError)
      else Inl (PlainException ''Couldn't extract trace and span''))"

text \<open>The handler catches every exception and prints it; the first component is the
  printed diagnostic, if any, the second the returned event.\<close>

definition add_sentry_trace_id_diag :: "trace_ctx \<Rightarrow> event \<Rightarrow> py_error option \<times> event" where
  "add_sentry_trace_id_diag ctx event_dict =
     (case trace_try ctx event_dict of
        Inl e \<Rightarrow> (Some e, event_dict)
      | Inr d \<Rightarrow> (None, d))"

definition add_sentry_trace_id :: "trace_ctx \<Rightarrow> event \<Rightarrow> event" where
  "add_sentry_trace_id ctx event_dict = snd (add_sentry_trace_id_diag ctx event_dict)"

text \<open>The loop of \<^verbatim>\<open>nest_custom_fields\<close> over the keys the event had on entry; the state is
  the event and the \<^verbatim>\<open>details\<close> dictionary.\<close>

fun nest_loop :: "string list \<Rightarrow> event \<Rightarrow> event \<Rightarrow> py_error + (event \<times> event)" where
  "nest_loop [] event_dict details = Inr (event_dict, details)"
| "nest_loop (key # keys) event_dict details =
     (if startswith_underscore key then
        (case dict_pop event_dict key of
           Inl e \<Rightarrow> Inl e
         | Inr (v, d) \<Rightarrow> nest_loop keys d details)
      else if key \<notin> STANDARD_FIELDS then
        (case dict_pop event_dict key of
           Inl e \<Rightarrow> Inl e
         | Inr (v, d) \<Rightarrow> nest_loop keys d (dict_set details key v))
      else nest_loop keys event_dict details)"

definition nest_custom_fields :: "event \<Rightarrow> py_error + event" where
  "nest_custom_fields event_dict =
     bind_err (nest_loop (map fst event_dict) event_dict [])
       (\<lambda>(d, details). Inr (if details \<noteq> [] then dict_set d ''details'' (VDict details) else d))"

section \<open>The processing chain of \<^verbatim>\<open>get_logger\<close>\<close>

text \<open>
  \<^verbatim>\<open>get_logger\<close> builds \<^verbatim>\<open>shared_processors\<close>: six processors of the logging library, then
  \<^verbatim>\<open>rename_and_flatten_fields\<close> and \<^verbatim>\<open>nest_custom_fields\<close>, and appends
  \<^verbatim>\<open>add_sentry_trace_id\<close> when \<^verbatim>\<open>sentry_dsn\<close> is true. The library's processors run first
  and are not part of the package: the event below is the event they hand to
  \<^verbatim>\<open>rename_and_flatten_fields\<close>. The library runs a chain by passing the result of each
  processor to the next; an exception ends the run.
\<close>

datatype processor = Rename_and_flatten_fields | Nest_custom_fields | Add_sentry_trace_id

definition dsn_given :: "string option \<Rightarrow> bool" where
  "dsn_given sentry_dsn = (case sentry_dsn of None \<Rightarrow> False | Some s \<Rightarrow> s \<noteq> [])"

definition shared_processors :: "string option \<Rightarrow> processor list" where
  "shared_processors sentry_dsn =
     [Rename_and_flatten_fields, Nest_custom_fields]
       @ (if dsn_given sentry_dsn then [Add_sentry_trace_id] else [])"

fun run_processor ::
  "(string \<Rightarrow> string) \<Rightarrow> trace_ctx \<Rightarrow> processor \<Rightarrow> event \<Rightarrow> py_error + event" where
  "run_processor upper ctx Rename_and_flatten_fields event_dict =
     rename_and_flatten_fields upper event_dict"
| "run_processor upper ctx Nest_custom_fields event_dict = nest_custom_fields event_dict"
| "run_processor upper ctx Add_sentry_trace_id event_dict =
     Inr (add_sentry_trace_id ctx event_dict)"

fun run_chain ::
  "(string \<Rightarrow> string) \<Rightarrow> trace_ctx \<Rightarrow> processor list \<Rightarrow> event \<Rightarrow> py_error + event" where
  "run_chain upper ctx [] event_dict = Inr event_dict"
| "run_chain upper ctx (p # ps) event_dict =
     bind_err (run_processor upper ctx p event_dict) (run_chain upper ctx ps)"

text \<open>
  The formatter installed on the root logger has the processors
  \<^verbatim>\<open>[remove_processors_meta_safe, JSONRenderer]\<close>. Between the shared chain and the formatter
  the library hands the event over (\<open>hand_over\<close>, which may add its bookkeeping keys), and
  the renderer \<open>render\<close> is the library's: both are parameters. A record that did not
  come from the structured front-end runs the same shared chain as the formatter's
  \<^verbatim>\<open>foreign_pre_chain\<close>, with nothing in between.
\<close>

definition emit ::
  "(string \<Rightarrow> string) \<Rightarrow> (event \<Rightarrow> event) \<Rightarrow> (event \<Rightarrow> 'line) \<Rightarrow> string option
     \<Rightarrow> trace_ctx \<Rightarrow> event \<Rightarrow> py_error + 'line" where
  "emit upper hand_over render sentry_dsn ctx event_dict =
     bind_err (run_chain upper ctx (shared_processors sentry_dsn) event_dict)
       (\<lambda>d. Inr (render (remove_processors_meta_safe (hand_over d))))"

text \<open>The order of the stages as the specification words it: normalize, enrich with trace,
  nest custom fields, strip internal metadata, serialize.\<close>

definition spec_order_chain ::
  "(string \<Rightarrow> string) \<Rightarrow> (event \<Rightarrow> event) \<Rightarrow> (event \<Rightarrow> 'line) \<Rightarrow> trace_ctx \<Rightarrow> event
     \<Rightarrow> py_error + 'line" where
  "spec_order_chain upper hand_over render ctx event_dict =
     bind_err (rename_and_flatten_fields upper event_dict)
       (\<lambda>d1. bind_err (nest_custom_fields (add_sentry_trace_id ctx d1))
          (\<lambda>d2. Inr (render (remove_processors_meta_safe (hand_over d2)))))"

section \<open>The remote sink filters of \<^verbatim>\<open>core.py\<close>\<close>

text \<open>The levels of the standard logging module.\<close>

definition DEBUG :: int where "DEBUG = 10"
definition INFO :: int where "INFO = 20"
definition WARNING :: int where "WARNING = 30"
definition ERROR :: int where "ERROR = 40"
definition CRITICAL :: int where "CRITICAL = 50"

definition severity_map :: "(string \<times> int) list" where
  "severity_map =
     [(''debug'', DEBUG), (''info'', INFO), (''warn'', WARNING), (''warning'', WARNING),
      (''error'', ERROR), (''fatal'', CRITICAL)]"

text \<open>\<^verbatim>\<open>severity_map.get(label, logging.INFO)\<close>.\<close>

definition event_level :: "string \<Rightarrow> int" where
  "event_level label = (case map_of severity_map label of None \<Rightarrow> INFO | Some n \<Rightarrow> n)"

text \<open>The first block of \<^verbatim>\<open>before_send_log\<close>: the result is true when the item is below
  \<^verbatim>\<open>sentry_log_level\<close> and the filter returns \<^verbatim>\<open>None\<close> at once.\<close>

definition below_sentry_log_level ::
  "(string \<Rightarrow> string) \<Rightarrow> int \<Rightarrow> event \<Rightarrow> py_error + bool" where
  "below_sentry_log_level lower sentry_log_level event =
     (let severity_text = dict_get event ''severity_text'' VNone in
      if truthy severity_text
      then bind_err (str_lower lower severity_text)
             (\<lambda>l. Inr (event_level l < sentry_log_level))
      else Inr False)"

text \<open>The second block: the health-check rule for access-log items.\<close>

definition is_health_access_log :: "event \<Rightarrow> py_error + bool" where
  "is_health_access_log event =
     (let logger_name = dict_get event ''logger'' (VStr '''') in
      bind_err
        (if \<not> truthy logger_name
         then val_get (dict_get event ''attributes'' (VDict [])) ''logger.name'' (VStr '''')
         else Inr logger_name)
        (\<lambda>logger_name.
           if logger_name = VStr ''uvicorn.access'' then
             (let message = dict_get event ''body'' (VStr '''') in
              bind_err
                (if \<not> truthy message
                 then val_get (dict_get event ''logentry'' (VDict [])) ''formatted'' (VStr '''')
                 else Inr message)
                (\<lambda>message.
                   bind_err (py_contains ''GET /health'' message)
                     (\<lambda>a. if a then py_contains ''HTTP'' message else Inr False)))
           else Inr False))"

definition before_send_log ::
  "(string \<Rightarrow> string) \<Rightarrow> int \<Rightarrow> event \<Rightarrow> py_error + event option" where
  "before_send_log lower sentry_log_level event =
     bind_err (below_sentry_log_level lower sentry_log_level event)
       (\<lambda>below. if below then Inr None
          else bind_err (is_health_access_log event)
                 (\<lambda>health. Inr (if health then None else Some event)))"

definition breadcrumb_level_map :: "(int \<times> string) list" where
  "breadcrumb_level_map =
     [(DEBUG, ''debug''), (INFO, ''info''), (WARNING, ''warning''), (ERROR, ''error''),
      (CRITICAL, ''fatal'')]"

definition min_breadcrumb_level :: "int \<Rightarrow> string" where
  "min_breadcrumb_level sentry_breadcrumbs_level =
     (case map_of breadcrumb_level_map sentry_breadcrumbs_level of
        None \<Rightarrow> ''info'' | Some s \<Rightarrow> s)"

definition breadcrumb_levels :: "string list" where
  "breadcrumb_levels = [''debug'', ''info'', ''warning'', ''error'', ''fatal'']"

text \<open>\<^verbatim>\<open>xs.index(x)\<close>: the first position of \<open>x\<close>, or \<^verbatim>\<open>ValueError\<close>.\<close>

fun list_index :: "'a list \<Rightarrow> 'a \<Rightarrow> py_error + nat" where
  "list_index [] x = Inl ValueError"
| "list_index (y # ys) x =
     (if y = x then Inr 0 else bind_err (list_index ys x) (\<lambda>i. Inr (Suc i)))"

definition allowed_breadcrumb_levels :: "int \<Rightarrow> py_error + string list" where
  "allowed_breadcrumb_levels sentry_breadcrumbs_level =
     bind_err (list_index breadcrumb_levels (min_breadcrumb_level sentry_breadcrumbs_level))
       (\<lambda>i. Inr (drop i breadcrumb_levels))"

text \<open>\<^verbatim>\<open>before_breadcrumb\<close> closes over \<^verbatim>\<open>sentry_breadcrumbs_level\<close> and the list of allowed
  levels computed when the logger is configured.\<close>

text \<open>The first block of \<^verbatim>\<open>before_breadcrumb\<close>: the health-check rule for access-log
  breadcrumbs.\<close>

definition is_health_crumb :: "event \<Rightarrow> py_error + bool" where
  "is_health_crumb crumb =
     (if dict_get crumb ''category'' (VStr '''') = VStr ''uvicorn.access''
      then py_contains ''GET /health'' (dict_get crumb ''message'' (VStr ''''))
      else Inr False)"

definition before_breadcrumb :: "int \<Rightarrow> string list \<Rightarrow> event \<Rightarrow> py_error + event option" where
  "before_breadcrumb sentry_breadcrumbs_level allowed crumb =
     bind_err (is_health_crumb crumb)
       (\<lambda>health.
          if health then Inr None
          else
            (let crumb_level = dict_get crumb ''level'' VNone in
             if crumb_level = VNone
             then Inr (if sentry_breadcrumbs_level \<le> INFO then Some crumb else None)
             else Inr (if crumb_level \<in> set (map VStr allowed) then Some crumb else None)))"

definition configured_before_breadcrumb :: "int \<Rightarrow> event \<Rightarrow> py_error + event option" where
  "configured_before_breadcrumb sentry_breadcrumbs_level crumb =
     bind_err (allowed_breadcrumb_levels sentry_breadcrumbs_level)
       (\<lambda>allowed. before_breadcrumb sentry_breadcrumbs_level allowed crumb)"

definition before_send_transaction :: "event \<Rightarrow> py_error + event option" where
  "before_send_transaction event =
     Inr (if dict_get event ''transaction'' (VStr '''') = VStr ''/health'' then None
          else Some event)"

section \<open>Notions used to state the properties\<close>

text \<open>The three classes of keys of the field nester: internal keys start with an
  underscore, standard keys are the other members of \<open>STANDARD_FIELDS\<close>, and every other key
  is custom.\<close>

definition is_standard :: "string \<Rightarrow> bool" where
  "is_standard k = (\<not> startswith_underscore k \<and> k \<in> STANDARD_FIELDS)"

definition is_custom :: "string \<Rightarrow> bool" where
  "is_custom k = (\<not> startswith_underscore k \<and> k \<notin> STANDARD_FIELDS)"

definition standard_part :: "event \<Rightarrow> event" where
  "standard_part d = filter (\<lambda>p. is_standard (fst p)) d"

definition custom_part :: "event \<Rightarrow> event" where
  "custom_part d = filter (\<lambda>p. is_custom (fst p)) d"



text \<open>A field that, when present, holds text (a mapping).\<close>

definition text_or_absent :: "event \<Rightarrow> string \<Rightarrow> bool" where
  "text_or_absent d k = (case map_of d k of None \<Rightarrow> True | Some (VStr s) \<Rightarrow> True | Some _ \<Rightarrow> False)"

definition mapping_or_absent :: "event \<Rightarrow> string \<Rightarrow> bool" where
  "mapping_or_absent d k =
     (case map_of d k of None \<Rightarrow> True | Some (VDict m) \<Rightarrow> True | Some _ \<Rightarrow> False)"

text \<open>A candidate log item whose inspected fields have the types the event filter expects,
  and likewise a breadcrumb.\<close>

definition log_item_typed :: "event \<Rightarrow> bool" where
  "log_item_typed event =
     (text_or_absent event ''severity_text'' \<and> mapping_or_absent event ''attributes''
      \<and> text_or_absent event ''body''
      \<and> (case map_of event ''logentry'' of
            None \<Rightarrow> True
          | Some (VDict m) \<Rightarrow> text_or_absent m ''formatted''
          | Some _ \<Rightarrow> False))"

definition crumb_typed :: "event \<Rightarrow> bool" where
  "crumb_typed crumb = text_or_absent crumb ''message''"

text \<open>The first two hyphen-delimited segments of the correlation header, when the tracing
  context is active and its header is a text with at least two segments (that is, a text
  with a hyphen in it).\<close>

definition not_hyphen :: "char \<Rightarrow> bool" where
  "not_hyphen c = (c \<noteq> CHR ''-'')"

fun header_segments :: "trace_ctx \<Rightarrow> (string \<times> string) option" where
  "header_segments (Traceparent (VStr s)) =
     (if CHR ''-'' \<in> set s
      then Some (takeWhile not_hyphen s, takeWhile not_hyphen (tl (dropWhile not_hyphen s)))
      else None)"
| "header_segments _ = None"

text \<open>The case mappings on ASCII text, where the language's \<^verbatim>\<open>upper\<close> and \<^verbatim>\<open>lower\<close> map the
  letters a to z and A to Z and leave every other character as it is; they stand for the
  language's mappings in the examples, all of which are ASCII.\<close>

definition upper_char :: "char \<Rightarrow> char" where
  "upper_char c =
     (let n = (of_char c :: nat) in if 97 \<le> n \<and> n \<le> 122 then char_of (n - 32) else c)"

definition lower_char :: "char \<Rightarrow> char" where
  "lower_char c =
     (let n = (of_char c :: nat) in if 65 \<le> n \<and> n \<le> 90 then char_of (n + 32) else c)"

definition ascii_upper :: "string \<Rightarrow> string" where
  "ascii_upper s = map upper_char s"

definition ascii_lower :: "string \<Rightarrow> string" where
  "ascii_lower s = map lower_char s"

text \<open>The position of a label in the five-level order debug, info, warning, error, fatal; a
  value that is not text has none.\<close>

definition level_rank :: "string \<Rightarrow> nat option" where
  "level_rank label =
     (if label = ''debug'' then Some 0
      else if label = ''info'' then Some 1
      else if label = ''warning'' then Some 2
      else if label = ''error'' then Some 3
      else if label = ''fatal'' then Some 4
      else None)"

fun label_rank :: "pyval \<Rightarrow> nat option" where
  "label_rank (VStr label) = level_rank label"
| "label_rank _ = None"

section \<open>Dictionaries: basic facts\<close>

lemma bind_err_simps [simp]:
  "bind_err (Inl e) f = Inl e"
  "bind_err (Inr x) f = f x"
  by (simp_all add: bind_err_def)

lemma map_of_dict_set [simp]: "map_of (dict_set d k v) = (map_of d)(k \<mapsto> v)"
  by (simp add: dict_set_def update_conv')

lemma map_of_dict_pop_default [simp]: "map_of (dict_pop_default d k) = (map_of d)(k := None)"
  by (simp add: dict_pop_default_def delete_conv')

lemma is_dict_dict_set [simp]: "is_dict d \<Longrightarrow> is_dict (dict_set d k v)"
  by (simp add: is_dict_def dict_set_def distinct_update)

lemma is_dict_delete [simp]: "is_dict d \<Longrightarrow> is_dict (AList.delete k d)"
  by (simp add: is_dict_def distinct_delete)

lemma update_fresh: "k \<notin> fst ` set al \<Longrightarrow> AList.update k v al = al @ [(k, v)]"
  by (induction al) auto

lemma map_of_present: "k \<in> fst ` set d \<Longrightarrow> \<exists>v. map_of d k = Some v"
  by (metis domD dom_map_of_conv_image_fst)

lemma delete_as_filter: "AList.delete k d = filter (\<lambda>p. fst p \<noteq> k) d"
  by (induction d) auto

lemma keys_delete: "fst ` set (AList.delete k d) = fst ` set d - {k}"
  by (induction d) auto

lemma map_the_map_of:
  "distinct (map fst d) \<Longrightarrow>
   map (\<lambda>k. (k, the (map_of d k))) (filter P (map fst d)) = filter (\<lambda>p. P (fst p)) d"
proof (induction d)
  case Nil
  then show ?case by simp
next
  case (Cons a d)
  obtain k0 v0 where a: "a = (k0, v0)" by (cases a)
  have fresh: "k0 \<notin> set (map fst d)" and dist: "distinct (map fst d)"
    using Cons.prems a by auto
  have "map (\<lambda>k. (k, the (map_of (a # d) k))) (filter P (map fst d))
           = map (\<lambda>k. (k, the (map_of d k))) (filter P (map fst d))"
  proof (rule map_cong[OF refl])
    fix k assume "k \<in> set (filter P (map fst d))"
    then have "k \<noteq> k0" using fresh by auto
    then show "(k, the (map_of (a # d) k)) = (k, the (map_of d k))" by (simp add: a)
  qed
  also have "\<dots> = filter (\<lambda>p. P (fst p)) d" using Cons.IH[OF dist] .
  finally have rest: "map (\<lambda>k. (k, the (map_of (a # d) k))) (filter P (map fst d))
           = filter (\<lambda>p. P (fst p)) d" .
  have first: "the (map_of (a # d) k0) = v0" by (simp add: a)
  show ?case
  proof (cases "P k0")
    case True
    have "map (\<lambda>k. (k, the (map_of (a # d) k))) (filter P (map fst (a # d)))
        = (k0, the (map_of (a # d) k0))
            # map (\<lambda>k. (k, the (map_of (a # d) k))) (filter P (map fst d))"
      using True by (simp add: a)
    also have "\<dots> = (k0, v0) # filter (\<lambda>p. P (fst p)) d" by (simp only: rest first)
    also have "\<dots> = filter (\<lambda>p. P (fst p)) (a # d)" using True by (simp add: a)
    finally show ?thesis .
  next
    case False
    have "map (\<lambda>k. (k, the (map_of (a # d) k))) (filter P (map fst (a # d)))
        = map (\<lambda>k. (k, the (map_of (a # d) k))) (filter P (map fst d))"
      using False by (simp add: a)
    also have "\<dots> = filter (\<lambda>p. P (fst p)) d" by (simp only: rest)
    also have "\<dots> = filter (\<lambda>p. P (fst p)) (a # d)" using False by (simp add: a)
    finally show ?thesis .
  qed
qed

lemma map_of_filter_key:
  "map_of (filter (\<lambda>p. P (fst p)) d) k = (if P k then map_of d k else None)"
  by (induction d) auto


section \<open>The field normalizer\<close>

lemma rename_event_eq:
  "rename_event d =
     Inr (case map_of d ''event'' of None \<Rightarrow> d
          | Some v \<Rightarrow> dict_set (AList.delete ''event'' d) ''message'' v)"
  by (auto simp: rename_event_def has_key_def dict_pop_def split: option.splits)

lemma rename_logger_name_eq:
  "rename_logger_name d =
     Inr (case map_of d ''logger_name'' of None \<Rightarrow> d
          | Some v \<Rightarrow> dict_set (AList.delete ''logger_name'' d) ''logger_name'' v)"
  by (auto simp: rename_logger_name_def has_key_def dict_pop_def split: option.splits)

lemma rename_level_eq:
  "rename_level upper d =
     (case map_of d ''level'' of None \<Rightarrow> Inr d
      | Some v \<Rightarrow>
          (case v of
             VStr s \<Rightarrow>
               Inr (dict_set (AList.delete ''level'' d) ''log_level'' (VStr (upper s)))
           | _ \<Rightarrow> Inl AttributeError))"
  by (auto simp: rename_level_def has_key_def dict_pop_def split: option.splits pyval.splits)

lemmas rename_steps =
  rename_and_flatten_fields_def rename_event_eq rename_logger_name_eq rename_level_eq

lemma rename_raises_iff:
  "(\<exists>e. rename_and_flatten_fields upper d = Inl e) \<longleftrightarrow> \<not> text_or_absent d ''level''"
  by (auto simp: rename_steps text_or_absent_def delete_conv'
           split: option.splits pyval.splits)

lemma rename_returns:
  "text_or_absent d ''level'' \<Longrightarrow> \<exists>out. rename_and_flatten_fields upper d = Inr out"
  using rename_raises_iff[of upper d] by (cases "rename_and_flatten_fields upper d") auto

lemma map_of_rename_event:
  "rename_event d = Inr d1 \<Longrightarrow>
   map_of d1 = (case map_of d ''event'' of None \<Rightarrow> map_of d
                | Some v \<Rightarrow> (map_of d)(''event'' := None, ''message'' \<mapsto> v))"
  by (auto simp: rename_event_eq delete_conv' split: option.splits)

lemma map_of_rename_logger_name:
  "rename_logger_name d = Inr d1 \<Longrightarrow> map_of d1 = map_of d"
  by (auto simp: rename_logger_name_eq delete_conv' split: option.splits)

lemma map_of_rename_level:
  "rename_level upper d = Inr d1 \<Longrightarrow>
   map_of d1 = (case map_of d ''level'' of None \<Rightarrow> map_of d
                | Some v \<Rightarrow> (case v of VStr s \<Rightarrow> (map_of d)(''level'' := None, ''log_level'' \<mapsto> VStr (upper s)) | _ \<Rightarrow> map_of d))"
  by (auto simp: rename_level_eq delete_conv' split: option.splits pyval.splits)

lemma rename_chain:
  "rename_and_flatten_fields upper d = Inr out \<Longrightarrow>
   \<exists>d1 d2. rename_event d = Inr d1 \<and> rename_logger_name d1 = Inr d2 \<and> rename_level upper d2 = Inr out"
  by (auto simp: rename_and_flatten_fields_def bind_err_def split: sum.splits)

lemma rename_map_of:
  assumes "rename_and_flatten_fields upper d = Inr out"
  shows "map_of out = (\<lambda>k.
      if k = ''event'' then None
      else if k = ''level'' then None
      else if k = ''message''
        then (case map_of d ''event'' of Some v \<Rightarrow> Some v | None \<Rightarrow> map_of d ''message'')
      else if k = ''log_level''
        then (case map_of d ''level'' of
                Some (VStr s) \<Rightarrow> Some (VStr (upper s))
              | _ \<Rightarrow> map_of d ''log_level'')
      else map_of d k)"
proof -
  from rename_chain[OF assms] obtain d1 d2 where
    s1: "rename_event d = Inr d1" and s2: "rename_logger_name d1 = Inr d2"
    and s3: "rename_level upper d2 = Inr out" by blast
  note m1 = map_of_rename_event[OF s1] and m2 = map_of_rename_logger_name[OF s2]
    and m3 = map_of_rename_level[OF s3]
  have lvl: "map_of d2 ''level'' = map_of d ''level''"
    by (simp add: m2 m1 split: option.splits)
  have ev: "map_of d2 ''event'' = None"
    by (simp add: m2 m1 split: option.splits)
  have l3: "text_or_absent d2 ''level''"
    using s3 by (auto simp: rename_level_eq text_or_absent_def split: option.splits pyval.splits)
  show ?thesis
  proof (rule ext)
    fix k
    show "map_of out k = (if k = ''event'' then None
      else if k = ''level'' then None
      else if k = ''message''
        then (case map_of d ''event'' of Some v \<Rightarrow> Some v | None \<Rightarrow> map_of d ''message'')
      else if k = ''log_level''
        then (case map_of d ''level'' of
                Some (VStr s) \<Rightarrow> Some (VStr (upper s))
              | _ \<Rightarrow> map_of d ''log_level'')
      else map_of d k)"
      using l3 lvl ev
      by (simp add: m3 m2 m1 text_or_absent_def split: option.splits pyval.splits)
  qed
qed

lemma rename_is_dict:
  "is_dict d \<Longrightarrow> rename_and_flatten_fields upper d = Inr out \<Longrightarrow> is_dict out"
  by (auto simp: rename_steps split: option.splits pyval.splits)



section \<open>The field nester\<close>

lemma nest_loop_eq:
  "distinct keys \<Longrightarrow> set keys \<subseteq> fst ` set d \<Longrightarrow> fst ` set details \<inter> set keys = {} \<Longrightarrow>
   nest_loop keys d details =
     Inr (filter (\<lambda>p. fst p \<notin> set keys \<or> is_standard (fst p)) d,
          details @ map (\<lambda>k. (k, the (map_of d k))) (filter is_custom keys))"
proof (induction keys arbitrary: d details)
  case Nil
  then show ?case by simp
next
  case (Cons key keys)
  from Cons.prems obtain v where v: "map_of d key = Some v"
    using map_of_present[of key d] by auto
  have pop: "dict_pop d key = Inr (v, AList.delete key d)"
    using v by (simp add: dict_pop_def)
  have dk: "distinct keys" and notin: "key \<notin> set keys" using Cons.prems by auto
  have sub': "set keys \<subseteq> fst ` set (AList.delete key d)"
    using Cons.prems notin by (auto simp: keys_delete)
  have same: "\<And>k. k \<in> set keys \<Longrightarrow> map_of (AList.delete key d) k = map_of d k"
    using notin by (auto simp: delete_conv')
  have mapeq: "map (\<lambda>k. (k, the (map_of (AList.delete key d) k))) (filter is_custom keys)
        = map (\<lambda>k. (k, the (map_of d k))) (filter is_custom keys)"
    using same by (auto intro!: map_cong)
  show ?case
  proof (cases "startswith_underscore key")
    case True
    have d1: "fst ` set details \<inter> set keys = {}" using Cons.prems by auto
    have flt: "filter (\<lambda>p. fst p \<notin> set keys \<or> is_standard (fst p)) (AList.delete key d)
         = filter (\<lambda>p. fst p \<notin> set (key # keys) \<or> is_standard (fst p)) d"
      using True by (auto simp: delete_as_filter is_standard_def intro!: filter_cong)
    show ?thesis
      using True pop Cons.IH[OF dk sub' d1] flt mapeq
      by (simp add: is_custom_def)
  next
    case False
    show ?thesis
    proof (cases "key \<in> STANDARD_FIELDS")
      case True
      have sub: "set keys \<subseteq> fst ` set d" using Cons.prems by auto
      have d1: "fst ` set details \<inter> set keys = {}" using Cons.prems by auto
      have flt: "filter (\<lambda>p. fst p \<notin> set keys \<or> is_standard (fst p)) d
         = filter (\<lambda>p. fst p \<notin> set (key # keys) \<or> is_standard (fst p)) d"
        using True False by (auto simp: is_standard_def intro!: filter_cong)
      show ?thesis
        using True False Cons.IH[OF dk sub d1] flt
        by (simp add: is_custom_def)
    next
      case nstd: False
      have fresh: "key \<notin> fst ` set details" using Cons.prems by auto
      have upd: "dict_set details key v = details @ [(key, v)]"
        using fresh by (simp add: dict_set_def update_fresh)
      have d1: "fst ` set (details @ [(key, v)]) \<inter> set keys = {}"
        using Cons.prems notin by auto
      have flt: "filter (\<lambda>p. fst p \<notin> set keys \<or> is_standard (fst p)) (AList.delete key d)
         = filter (\<lambda>p. fst p \<notin> set (key # keys) \<or> is_standard (fst p)) d"
        using False nstd by (auto simp: delete_as_filter is_standard_def intro!: filter_cong)
      show ?thesis
        using False nstd pop upd Cons.IH[OF dk sub' d1] flt mapeq v
        by (simp add: is_custom_def)
    qed
  qed
qed

lemma standard_fields_plain: "k \<in> STANDARD_FIELDS \<Longrightarrow> \<not> startswith_underscore k"
  by (auto simp: STANDARD_FIELDS_def startswith_underscore_def)

lemma details_is_custom: "is_custom ''details''"
  by (simp add: is_custom_def startswith_underscore_def STANDARD_FIELDS_def)

lemma nest_custom_fields_eq:
  assumes "is_dict d"
  shows "nest_custom_fields d =
     Inr (standard_part d
            @ (if custom_part d = [] then [] else [(''details'', VDict (custom_part d))]))"
proof -
  have dist: "distinct (map fst d)" using assms by (simp add: is_dict_def)
  have loop: "nest_loop (map fst d) d [] = Inr (standard_part d, custom_part d)"
    using nest_loop_eq[of "map fst d" d "[]"] dist map_the_map_of[OF dist, of is_custom]
    by (simp add: standard_part_def custom_part_def cong: filter_cong)
  have fresh: "''details'' \<notin> fst ` set (standard_part d)"
    using details_is_custom by (auto simp: standard_part_def is_standard_def is_custom_def)
  show ?thesis
    using loop fresh by (simp add: nest_custom_fields_def dict_set_def update_fresh)
qed

lemma upper_info: "ascii_upper ''info'' = ''INFO''"
  by code_simp

section \<open>Properties of the field normalizer\<close>

text \<open>
  Claim C7 says that after the field normalizer has run the event has a \<open>message\<close> key, also
  when the input had neither an \<open>event\<close> nor a \<open>message\<close> key. The move of \<open>event\<close> is
  guarded by a test for the key, so an event without it is returned as it came: on the empty
  event the normalizer returns the empty event, which has no \<open>message\<close>.
\<close>

theorem normalizer_message_counterexample:
  "rename_and_flatten_fields ascii_upper [] = Inr [] \<and> \<not> has_key [] ''message''"
  by (simp add: rename_steps has_key_def)

text \<open>
  Claim C7 as amended: for every event whose \<open>level\<close>, when present, is text, the normalizer
  returns an event, and that event has a \<open>message\<close> key exactly when the input had an \<open>event\<close>
  key or a \<open>message\<close> key.
\<close>

theorem normalizer_message_presence:
  assumes "text_or_absent d ''level''"
  shows "\<exists>out. rename_and_flatten_fields upper d = Inr out
           \<and> (has_key out ''message'' \<longleftrightarrow> has_key d ''event'' \<or> has_key d ''message'')"
proof -
  from rename_returns[OF assms] obtain out where out: "rename_and_flatten_fields upper d = Inr out"
    by blast
  have "has_key out ''message'' \<longleftrightarrow> has_key d ''event'' \<or> has_key d ''message''"
    by (simp add: has_key_def rename_map_of[OF out] split: option.splits)
  with out show ?thesis by blast
qed

theorem normalizer_message_presence_witness:
  "text_or_absent [(''event'', VStr ''hi''), (''level'', VStr ''info'')] ''level''
   \<and> (\<exists>out. rename_and_flatten_fields ascii_upper [(''event'', VStr ''hi''), (''level'', VStr ''info'')]
               = Inr out
           \<and> has_key out ''message'')"
proof -
  have h: "text_or_absent [(''event'', VStr ''hi''), (''level'', VStr ''info'')] ''level''"
    by (simp add: text_or_absent_def)
  show ?thesis
    using h normalizer_message_presence[OF h] by (auto simp: has_key_def)
qed

text \<open>
  Claim C5: for every event whose \<open>level\<close>, when present, is text, the field normalizer
  returns an event in which \<open>event\<close> is absent and \<open>message\<close> holds the value \<open>event\<close> had;
  \<open>logger_name\<close> is mapped as in the input (present with the same value, or absent);
  \<open>level\<close> is absent and \<open>log_level\<close> holds the upper-cased text of \<open>level\<close>, that is, what
  the language's \<^verbatim>\<open>upper\<close> returns on it, whatever that mapping is; where \<open>event\<close> or
  \<open>level\<close> is absent in the input nothing is raised and \<open>message\<close> or \<open>log_level\<close> is as in
  the input; every other key is mapped as in the input.
\<close>

theorem normalizer_renames:
  assumes "text_or_absent d ''level''"
  shows "\<exists>out. rename_and_flatten_fields upper d = Inr out
     \<and> \<not> has_key out ''event''
     \<and> (\<forall>v. map_of d ''event'' = Some v \<longrightarrow> map_of out ''message'' = Some v)
     \<and> map_of out ''logger_name'' = map_of d ''logger_name''
     \<and> \<not> has_key out ''level''
     \<and> (\<forall>s. map_of d ''level'' = Some (VStr s)
            \<longrightarrow> map_of out ''log_level'' = Some (VStr (upper s)))
     \<and> (\<not> has_key d ''event'' \<longrightarrow> map_of out ''message'' = map_of d ''message'')
     \<and> (\<not> has_key d ''level'' \<longrightarrow> map_of out ''log_level'' = map_of d ''log_level'')
     \<and> (\<forall>k. k \<notin> {''event'', ''message'', ''level'', ''log_level''}
            \<longrightarrow> map_of out k = map_of d k)"
proof -
  from rename_returns[OF assms] obtain out where out: "rename_and_flatten_fields upper d = Inr out"
    by blast
  note m = rename_map_of[OF out]
  have 1: "\<not> has_key out ''event''" by (simp add: has_key_def m)
  have 2: "\<forall>v. map_of d ''event'' = Some v \<longrightarrow> map_of out ''message'' = Some v"
    by (simp add: m)
  have 3: "map_of out ''logger_name'' = map_of d ''logger_name''" by (simp add: m)
  have 4: "\<not> has_key out ''level''" by (simp add: has_key_def m)
  have 5: "\<forall>s. map_of d ''level'' = Some (VStr s)
            \<longrightarrow> map_of out ''log_level'' = Some (VStr (upper s))"
    by (simp add: m)
  have 6: "\<not> has_key d ''event'' \<longrightarrow> map_of out ''message'' = map_of d ''message''"
    by (simp add: has_key_def m)
  have 7: "\<not> has_key d ''level'' \<longrightarrow> map_of out ''log_level'' = map_of d ''log_level''"
    by (simp add: has_key_def m)
  have 8: "\<forall>k. k \<notin> {''event'', ''message'', ''level'', ''log_level''}
            \<longrightarrow> map_of out k = map_of d k"
    by (simp add: m)
  from out 1 2 3 4 5 6 7 8 show ?thesis by blast
qed

theorem normalizer_renames_witness:
  "text_or_absent
     [(''event'', VStr ''hi''), (''logger_name'', VStr ''svc''), (''level'', VStr ''info'')]
     ''level''
   \<and> (\<exists>out. rename_and_flatten_fields ascii_upper
               [(''event'', VStr ''hi''), (''logger_name'', VStr ''svc''),
                (''level'', VStr ''info'')] = Inr out
         \<and> \<not> has_key out ''event'' \<and> map_of out ''message'' = Some (VStr ''hi'')
         \<and> map_of out ''logger_name'' = Some (VStr ''svc'')
         \<and> \<not> has_key out ''level'' \<and> map_of out ''log_level'' = Some (VStr ''INFO''))"
proof -
  have h: "text_or_absent
     [(''event'', VStr ''hi''), (''logger_name'', VStr ''svc''), (''level'', VStr ''info'')]
     ''level''"
    by (simp add: text_or_absent_def)
  show ?thesis
    using h normalizer_renames[OF h, of ascii_upper] upper_info by auto
qed




section \<open>Properties of the field nester\<close>

text \<open>
  Claim C4: for every event, the field nester returns the standard keys of the event at top
  level, in their order, followed, when the event has custom keys, by one \<open>details\<close> entry
  whose value is the mapping of exactly the custom keys and their values in their original
  order. No key of the output starts with an underscore, and when the event has no custom
  key the output has no \<open>details\<close> key.
\<close>

theorem nester_partition:
  assumes "is_dict d"
  shows "\<exists>out. nest_custom_fields d = Inr out
     \<and> out = standard_part d
               @ (if custom_part d = [] then [] else [(''details'', VDict (custom_part d))])
     \<and> (\<forall>k. has_key out k \<longrightarrow> \<not> startswith_underscore k)
     \<and> (\<forall>k. k \<in> STANDARD_FIELDS \<longrightarrow> map_of out k = map_of d k)
     \<and> (custom_part d = [] \<longrightarrow> \<not> has_key out ''details'')"
proof -
  define out where "out = standard_part d
               @ (if custom_part d = [] then [] else [(''details'', VDict (custom_part d))])"
  have r: "nest_custom_fields d = Inr out"
    using nest_custom_fields_eq[OF assms] by (simp add: out_def)
  have ms: "\<And>k. map_of (standard_part d) k = (if is_standard k then map_of d k else None)"
    by (simp add: standard_part_def map_of_filter_key)
  have nd: "\<not> is_standard ''details''"
    using details_is_custom by (simp add: is_standard_def is_custom_def)
  have mo: "\<And>k. map_of out k =
      (if is_standard k then map_of d k
       else if k = ''details'' \<and> custom_part d \<noteq> [] then Some (VDict (custom_part d))
       else None)"
    using nd by (auto simp: out_def map_of_append map_add_def ms split: option.splits)
  have 1: "\<forall>k. has_key out k \<longrightarrow> \<not> startswith_underscore k"
    using details_is_custom
    by (auto simp: has_key_def mo is_standard_def is_custom_def split: if_splits)
  have 2: "\<forall>k. k \<in> STANDARD_FIELDS \<longrightarrow> map_of out k = map_of d k"
    using standard_fields_plain by (simp add: mo is_standard_def)
  have 3: "custom_part d = [] \<longrightarrow> \<not> has_key out ''details''"
    using nd by (simp add: has_key_def mo)
  from r 1 2 3 show ?thesis by (simp add: out_def)
qed

theorem nester_partition_witness:
  "is_dict [(''_x'', VInt 5), (''message'', VStr ''m''), (''b'', VInt 1), (''a'', VInt 2),
            (''logger'', VStr ''l'')]
   \<and> nest_custom_fields
        [(''_x'', VInt 5), (''message'', VStr ''m''), (''b'', VInt 1), (''a'', VInt 2),
         (''logger'', VStr ''l'')]
     = Inr [(''message'', VStr ''m''), (''logger'', VStr ''l''),
            (''details'', VDict [(''b'', VInt 1), (''a'', VInt 2)])]"
proof -
  have h: "is_dict [(''_x'', VInt 5), (''message'', VStr ''m''), (''b'', VInt 1),
                    (''a'', VInt 2), (''logger'', VStr ''l'')]"
    by (simp add: is_dict_def)
  from nester_partition[OF h] obtain out where
    r: "nest_custom_fields [(''_x'', VInt 5), (''message'', VStr ''m''), (''b'', VInt 1),
                            (''a'', VInt 2), (''logger'', VStr ''l'')] = Inr out"
    and o: "out = standard_part [(''_x'', VInt 5), (''message'', VStr ''m''), (''b'', VInt 1),
                                 (''a'', VInt 2), (''logger'', VStr ''l'')]
               @ (if custom_part [(''_x'', VInt 5), (''message'', VStr ''m''), (''b'', VInt 1),
                                  (''a'', VInt 2), (''logger'', VStr ''l'')] = [] then []
                  else [(''details'',
                         VDict (custom_part [(''_x'', VInt 5), (''message'', VStr ''m''),
                                  (''b'', VInt 1), (''a'', VInt 2), (''logger'', VStr ''l'')]))])"
    by blast
  have "out = [(''message'', VStr ''m''), (''logger'', VStr ''l''),
            (''details'', VDict [(''b'', VInt 1), (''a'', VInt 2)])]"
    unfolding o
    by (simp add: standard_part_def custom_part_def is_standard_def is_custom_def
          startswith_underscore_def STANDARD_FIELDS_def)
  with r h show ?thesis by simp
qed

text \<open>
  Claim C9: when the event already has a top-level \<open>details\<close> key, the nester treats it as a
  custom field. The output's \<open>details\<close> is the freshly built mapping of the custom entries
  of the event, and the value the caller supplied sits inside it under the key \<open>details\<close>;
  nothing of the caller's value is merged into the container.
\<close>

theorem nester_existing_details:
  assumes "is_dict d" and "map_of d ''details'' = Some v"
  shows "\<exists>out. nest_custom_fields d = Inr out
     \<and> map_of out ''details'' = Some (VDict (custom_part d))
     \<and> map_of (custom_part d) ''details'' = Some v
     \<and> set (custom_part d) = {p \<in> set d. is_custom (fst p)}"
proof -
  have mc: "map_of (custom_part d) ''details'' = Some v"
    using assms(2) details_is_custom by (simp add: custom_part_def map_of_filter_key)
  then have ne: "custom_part d \<noteq> []" by auto
  have nd: "\<not> is_standard ''details''"
    using details_is_custom by (simp add: is_standard_def is_custom_def)
  have ms: "map_of (standard_part d) ''details'' = None"
    using nd by (simp add: standard_part_def map_of_filter_key)
  have r: "nest_custom_fields d = Inr (standard_part d @ [(''details'', VDict (custom_part d))])"
    using nest_custom_fields_eq[OF assms(1)] ne by simp
  have md: "map_of (standard_part d @ [(''details'', VDict (custom_part d))]) ''details''
              = Some (VDict (custom_part d))"
    using ms by (simp add: map_of_append map_add_def)
  have st: "set (custom_part d) = {p \<in> set d. is_custom (fst p)}"
    by (simp add: custom_part_def)
  from r md mc st show ?thesis by simp
qed

theorem nester_existing_details_witness:
  "is_dict [(''message'', VStr ''m''), (''details'', VDict [(''x'', VInt 1)]), (''a'', VInt 2)]
   \<and> map_of [(''message'', VStr ''m''), (''details'', VDict [(''x'', VInt 1)]), (''a'', VInt 2)]
         ''details'' = Some (VDict [(''x'', VInt 1)])
   \<and> (\<exists>out. nest_custom_fields
               [(''message'', VStr ''m''), (''details'', VDict [(''x'', VInt 1)]), (''a'', VInt 2)]
               = Inr out
           \<and> map_of out ''details''
               = Some (VDict [(''details'', VDict [(''x'', VInt 1)]), (''a'', VInt 2)]))"
proof -
  have h: "is_dict [(''message'', VStr ''m''), (''details'', VDict [(''x'', VInt 1)]),
                    (''a'', VInt 2)]"
    by (simp add: is_dict_def)
  have g: "map_of [(''message'', VStr ''m''), (''details'', VDict [(''x'', VInt 1)]),
                   (''a'', VInt 2)] ''details'' = Some (VDict [(''x'', VInt 1)])"
    by simp
  have c: "custom_part [(''message'', VStr ''m''), (''details'', VDict [(''x'', VInt 1)]),
                        (''a'', VInt 2)]
             = [(''details'', VDict [(''x'', VInt 1)]), (''a'', VInt 2)]"
    by (simp add: custom_part_def is_custom_def startswith_underscore_def STANDARD_FIELDS_def)
  show ?thesis
    using h g nester_existing_details[OF h g] c by auto
qed

section \<open>The trace enricher\<close>

lemma split_on_unfold:
  "split_on sep s =
     takeWhile (\<lambda>c. c \<noteq> sep) s
       # (case dropWhile (\<lambda>c. c \<noteq> sep) s of [] \<Rightarrow> [] | x # r \<Rightarrow> split_on sep r)"
  by (induction s) (auto split: list.splits)

lemma split_on_no_sep: "sep \<notin> set s \<Longrightarrow> split_on sep s = [s]"
  by (induction s) auto

lemma split_on_hyphen:
  assumes "CHR ''-'' \<in> set s"
  shows "\<exists>rest. split_on CHR ''-'' s
           = takeWhile not_hyphen s # takeWhile not_hyphen (tl (dropWhile not_hyphen s)) # rest"
proof -
  have nh: "not_hyphen = (\<lambda>c. c \<noteq> CHR ''-'')" by (simp add: not_hyphen_def fun_eq_iff)
  from assms have "dropWhile not_hyphen s \<noteq> []" by (simp add: nh)
  then obtain x r where dr: "dropWhile not_hyphen s = x # r"
    by (cases "dropWhile not_hyphen s") auto
  have 1: "split_on CHR ''-'' s = takeWhile not_hyphen s # split_on CHR ''-'' r"
    using split_on_unfold[of "CHR ''-''" s] dr by (simp add: nh)
  have 2: "split_on CHR ''-'' r = takeWhile not_hyphen r
      # (case dropWhile not_hyphen r of [] \<Rightarrow> [] | x # r' \<Rightarrow> split_on CHR ''-'' r')"
    using split_on_unfold[of "CHR ''-''" r] by (simp add: nh)
  show ?thesis using 1 2 dr by simp
qed

lemma trace_try_succeeds:
  assumes "header_segments ctx = Some (t, s)"
  shows "trace_try ctx d = Inr (dict_set (dict_set d ''trace_id'' (VStr t)) ''span_id'' (VStr s))"
proof (cases ctx)
  case (Traceparent tp)
  show ?thesis
  proof (cases tp)
    case (VStr h)
    have hy: "CHR ''-'' \<in> set h"
      using assms Traceparent VStr by (simp split: if_splits)
    then have ne: "h \<noteq> []" by auto
    from split_on_hyphen[OF hy] obtain rest where
      "split_on CHR ''-'' h
         = takeWhile not_hyphen h # takeWhile not_hyphen (tl (dropWhile not_hyphen h)) # rest"
      by blast
    then show ?thesis using assms hy ne Traceparent VStr by simp
  qed (use assms Traceparent in simp_all)
qed (use assms in simp_all)

lemma trace_try_fails:
  "header_segments ctx = None \<Longrightarrow> ctx \<noteq> ScopeFalsy \<Longrightarrow> \<exists>e. trace_try ctx d = Inl e"
proof (cases ctx)
  case (Traceparent tp)
  assume h: "header_segments ctx = None"
  show ?thesis
  proof (cases tp)
    case (VStr s)
    then have "CHR ''-'' \<notin> set s" using h Traceparent by (simp split: if_splits)
    then show ?thesis using Traceparent VStr by (simp add: split_on_no_sep)
  qed (simp_all add: Traceparent)
qed simp_all

lemma add_sentry_trace_id_eq:
  "add_sentry_trace_id ctx d =
     (case header_segments ctx of
        Some (t, s) \<Rightarrow> dict_set (dict_set d ''trace_id'' (VStr t)) ''span_id'' (VStr s)
      | None \<Rightarrow> d)"
proof (cases "header_segments ctx")
  case None
  show ?thesis
  proof (cases "ctx = ScopeFalsy")
    case True
    then show ?thesis by (simp add: add_sentry_trace_id_def add_sentry_trace_id_diag_def)
  next
    case False
    from trace_try_fails[OF None False] obtain e where "trace_try ctx d = Inl e" by blast
    then show ?thesis
      using None by (simp add: add_sentry_trace_id_def add_sentry_trace_id_diag_def)
  qed
next
  case (Some a)
  obtain t s where a: "a = (t, s)" by (cases a)
  show ?thesis
    using trace_try_succeeds[of ctx t s d] Some a
    by (simp add: add_sentry_trace_id_def add_sentry_trace_id_diag_def)
qed

text \<open>
  Claim C3: the trace enricher never raises (the handler catches every exception of the
  lookup). When the tracing context is active and its header is a text with at least two
  hyphen-delimited segments, the result is the event with \<open>trace_id\<close> set to the first and
  \<open>span_id\<close> to the second segment, every other key as it was. In every other case (the
  lookup raises, no scope, no header, an empty header, a header without a hyphen, a header
  that is not text) the result is the event itself.
\<close>

theorem trace_enricher:
  "(case header_segments ctx of
      Some (t, s) \<Rightarrow>
        add_sentry_trace_id ctx d
          = dict_set (dict_set d ''trace_id'' (VStr t)) ''span_id'' (VStr s)
        \<and> map_of (add_sentry_trace_id ctx d) ''trace_id'' = Some (VStr t)
        \<and> map_of (add_sentry_trace_id ctx d) ''span_id'' = Some (VStr s)
        \<and> (\<forall>k. k \<noteq> ''trace_id'' \<and> k \<noteq> ''span_id''
              \<longrightarrow> map_of (add_sentry_trace_id ctx d) k = map_of d k)
    | None \<Rightarrow> add_sentry_trace_id ctx d = d)"
  by (simp add: add_sentry_trace_id_eq split: option.splits)

theorem trace_enricher_witness:
  "add_sentry_trace_id (Traceparent (VStr ''abc123-def456'')) [(''message'', VStr ''hi'')]
     = [(''message'', VStr ''hi''), (''trace_id'', VStr ''abc123''), (''span_id'', VStr ''def456'')]
   \<and> add_sentry_trace_id (Traceparent (VStr ''abc123'')) [(''message'', VStr ''hi'')]
     = [(''message'', VStr ''hi'')]
   \<and> add_sentry_trace_id (Traceparent VNone) [(''message'', VStr ''hi'')]
     = [(''message'', VStr ''hi'')]
   \<and> add_sentry_trace_id (TraceparentRaises AttributeError) [(''message'', VStr ''hi'')]
     = [(''message'', VStr ''hi'')]"
  using trace_enricher[of "Traceparent (VStr ''abc123-def456'')" "[(''message'', VStr ''hi'')]"]
    trace_enricher[of "Traceparent (VStr ''abc123'')" "[(''message'', VStr ''hi'')]"]
    trace_enricher[of "Traceparent VNone" "[(''message'', VStr ''hi'')]"]
    trace_enricher[of "TraceparentRaises AttributeError" "[(''message'', VStr ''hi'')]"]
  by (simp add: not_hyphen_def dict_set_def)

section \<open>The order of the processing chain\<close>

lemma run_chain_shared:
  "run_chain upper ctx (shared_processors sentry_dsn) d =
     bind_err (rename_and_flatten_fields upper d)
       (\<lambda>d1. bind_err (nest_custom_fields d1)
          (\<lambda>d2. Inr (if dsn_given sentry_dsn then add_sentry_trace_id ctx d2 else d2)))"
  by (simp add: shared_processors_def bind_err_def split: sum.splits)

text \<open>
  Claim C1 says that the chain runs field normalization, then trace enrichment, then nesting
  of custom fields, then the stripping of internal metadata, then serialization. The
  configured chain nests before it enriches, so \<open>span_id\<close> stays at top level, while in the
  claimed order the nester would move it into \<open>details\<close>: with a DSN, the header
  \<^verbatim>\<open>abc123-def456\<close> and the event \<^verbatim>\<open>{"event": "hi"}\<close> the two orders hand different events to
  the renderer (here with nothing added at the hand-over and the renderer left out).
\<close>

theorem chain_order_counterexample:
  "emit ascii_upper (\<lambda>d. d) (\<lambda>d. d) (Some ''https://key@sentry.example/1'')
       (Traceparent (VStr ''abc123-def456'')) [(''event'', VStr ''hi'')]
     = Inr [(''message'', VStr ''hi''), (''trace_id'', VStr ''abc123''),
            (''span_id'', VStr ''def456'')]
   \<and> spec_order_chain ascii_upper (\<lambda>d. d) (\<lambda>d. d)
       (Traceparent (VStr ''abc123-def456'')) [(''event'', VStr ''hi'')]
     = Inr [(''message'', VStr ''hi''), (''trace_id'', VStr ''abc123''),
            (''details'', VDict [(''span_id'', VStr ''def456'')])]
   \<and> emit ascii_upper (\<lambda>d. d) (\<lambda>d. d) (Some ''https://key@sentry.example/1'')
       (Traceparent (VStr ''abc123-def456'')) [(''event'', VStr ''hi'')]
     \<noteq> spec_order_chain ascii_upper (\<lambda>d. d) (\<lambda>d. d)
       (Traceparent (VStr ''abc123-def456'')) [(''event'', VStr ''hi'')]"
  by code_simp

text \<open>
  Claim C1 as amended: for every event, hand-over, renderer, DSN setting and tracing context,
  the configured chain is field normalization, then nesting of custom fields, then trace
  enrichment when a DSN is configured (and no enrichment otherwise), then at render time the
  stripping of internal metadata, then serialization, each once and in this order; an error
  of the normalizer or the nester ends the run.
\<close>

theorem chain_order:
  "emit upper hand_over render sentry_dsn ctx d =
     bind_err (rename_and_flatten_fields upper d)
       (\<lambda>d1. bind_err (nest_custom_fields d1)
          (\<lambda>d2. Inr (render (remove_processors_meta_safe (hand_over
                  (if dsn_given sentry_dsn then add_sentry_trace_id ctx d2 else d2))))))"
  by (simp add: emit_def run_chain_shared bind_err_def split: sum.splits)

theorem chain_order_witness:
  "emit ascii_upper (\<lambda>d. d) (\<lambda>d. d) (Some ''https://key@sentry.example/1'')
       (Traceparent (VStr ''abc123-def456'')) [(''event'', VStr ''hi''), (''user'', VInt 7)]
     = Inr [(''message'', VStr ''hi''), (''details'', VDict [(''user'', VInt 7)]),
            (''trace_id'', VStr ''abc123''), (''span_id'', VStr ''def456'')]"
proof -
  have "bind_err (rename_and_flatten_fields ascii_upper [(''event'', VStr ''hi''), (''user'', VInt 7)])
       (\<lambda>d1. bind_err (nest_custom_fields d1)
          (\<lambda>d2. Inr (remove_processors_meta_safe
                  (if dsn_given (Some ''https://key@sentry.example/1'')
                   then add_sentry_trace_id (Traceparent (VStr ''abc123-def456'')) d2
                   else d2))))
     = Inr [(''message'', VStr ''hi''), (''details'', VDict [(''user'', VInt 7)]),
            (''trace_id'', VStr ''abc123''), (''span_id'', VStr ''def456'')]"
    by code_simp
  then show ?thesis
    using chain_order[of ascii_upper "\<lambda>d. d" "\<lambda>d. d" "Some ''https://key@sentry.example/1''"
        "Traceparent (VStr ''abc123-def456'')" "[(''event'', VStr ''hi''), (''user'', VInt 7)]"]
    by simp
qed

section \<open>The remote sink filters: when they return\<close>

lemma text_field:
  "text_or_absent d k \<Longrightarrow> \<exists>s. dict_get d k (VStr dflt) = VStr s"
  by (auto simp: text_or_absent_def dict_get_def split: option.splits pyval.splits)

lemma mapping_field_get:
  "mapping_or_absent d k \<Longrightarrow> \<exists>v. val_get (dict_get d k (VDict [])) k' dflt = Inr v"
  by (auto simp: mapping_or_absent_def dict_get_def split: option.splits pyval.splits)

lemma formatted_text:
  assumes "case map_of event ''logentry'' of None \<Rightarrow> True
           | Some (VDict m) \<Rightarrow> text_or_absent m ''formatted'' | Some _ \<Rightarrow> False"
  shows "\<exists>s. val_get (dict_get event ''logentry'' (VDict [])) ''formatted'' (VStr '''') = Inr (VStr s)"
proof (cases "map_of event ''logentry''")
  case None
  then show ?thesis by (simp add: dict_get_def)
next
  case (Some v)
  then obtain m where v: "v = VDict m" and t: "text_or_absent m ''formatted''"
    using assms by (cases v) auto
  from text_field[OF t, of "''''"] obtain s where "dict_get m ''formatted'' (VStr '''') = VStr s"
    by blast
  then show ?thesis using Some v by (simp add: dict_get_def)
qed

lemma below_level_typed:
  "text_or_absent event ''severity_text'' \<Longrightarrow>
   \<exists>b. below_sentry_log_level lower lvl event = Inr b"
  by (auto simp: below_sentry_log_level_def text_or_absent_def dict_get_def
           split: option.splits pyval.splits)

lemma health_rule_typed:
  assumes "log_item_typed event"
  shows "\<exists>h. is_health_access_log event = Inr h"
proof -
  from assms have a: "mapping_or_absent event ''attributes''"
    and b: "text_or_absent event ''body''"
    and f: "case map_of event ''logentry'' of None \<Rightarrow> True
           | Some (VDict m) \<Rightarrow> text_or_absent m ''formatted'' | Some _ \<Rightarrow> False"
    by (simp_all add: log_item_typed_def)
  from mapping_field_get[OF a, of "''logger.name''" "VStr ''''"] obtain ln where
    ln: "val_get (dict_get event ''attributes'' (VDict [])) ''logger.name'' (VStr '''') = Inr ln"
    by blast
  from text_field[OF b, of "''''"] obtain body where body: "dict_get event ''body'' (VStr '''') = VStr body"
    by blast
  from formatted_text[OF f] obtain fm where
    fm: "val_get (dict_get event ''logentry'' (VDict [])) ''formatted'' (VStr '''') = Inr (VStr fm)"
    by blast
  show ?thesis
    by (auto simp: is_health_access_log_def Let_def ln body fm)
qed

lemma before_send_log_typed:
  assumes "log_item_typed event"
  shows "\<exists>r. before_send_log lower lvl event = Inr r"
proof -
  from assms have "text_or_absent event ''severity_text''" by (simp add: log_item_typed_def)
  from below_level_typed[OF this] obtain b where b: "below_sentry_log_level lower lvl event = Inr b"
    by blast
  from health_rule_typed[OF assms] obtain h where h: "is_health_access_log event = Inr h"
    by blast
  show ?thesis by (simp add: before_send_log_def b h)
qed

lemma min_breadcrumb_level_cases:
  "min_breadcrumb_level lvl =
     (if lvl = 10 then ''debug'' else if lvl = 20 then ''info'' else if lvl = 30 then ''warning''
      else if lvl = 40 then ''error'' else if lvl = 50 then ''fatal'' else ''info'')"
  by (simp add: min_breadcrumb_level_def breadcrumb_level_map_def DEBUG_def INFO_def
        WARNING_def ERROR_def CRITICAL_def)

lemma allowed_breadcrumb_levels_eq:
  "allowed_breadcrumb_levels lvl =
     Inr (if lvl = 10 then [''debug'', ''info'', ''warning'', ''error'', ''fatal'']
          else if lvl = 30 then [''warning'', ''error'', ''fatal'']
          else if lvl = 40 then [''error'', ''fatal'']
          else if lvl = 50 then [''fatal'']
          else [''info'', ''warning'', ''error'', ''fatal''])"
  by (simp add: allowed_breadcrumb_levels_def min_breadcrumb_level_cases breadcrumb_levels_def)

lemma before_breadcrumb_typed:
  assumes "crumb_typed crumb"
  shows "\<exists>r. before_breadcrumb lvl allowed crumb = Inr r"
proof -
  from assms have "text_or_absent crumb ''message''" by (simp add: crumb_typed_def)
  from text_field[OF this, of "''''"] obtain m where "dict_get crumb ''message'' (VStr '''') = VStr m"
    by blast
  then show ?thesis by (simp add: before_breadcrumb_def is_health_crumb_def Let_def)
qed

lemma configured_before_breadcrumb_typed:
  assumes "crumb_typed crumb"
  shows "\<exists>r. configured_before_breadcrumb lvl crumb = Inr r"
  using before_breadcrumb_typed[OF assms]
  by (simp add: configured_before_breadcrumb_def allowed_breadcrumb_levels_eq)

lemma emit_returns:
  assumes "is_dict d" and "text_or_absent d ''level''"
  shows "\<exists>line. emit upper hand_over render sentry_dsn ctx d = Inr line"
proof -
  from rename_returns[OF assms(2)] obtain d1 where d1: "rename_and_flatten_fields upper d = Inr d1"
    by blast
  have "is_dict d1" using rename_is_dict[OF assms(1) d1] .
  from nest_custom_fields_eq[OF this] obtain d2 where d2: "nest_custom_fields d1 = Inr d2"
    by blast
  show ?thesis
    by (simp add: emit_def shared_processors_def d1 d2)
qed

text \<open>
  Claim C2 says that no stage and no filter ever raises, whatever the event holds, a \<open>level\<close>
  that is a number or a boolean included. The normalizer calls \<^verbatim>\<open>upper\<close> on the value of
  \<open>level\<close>, the event filter calls \<^verbatim>\<open>lower\<close> on a true \<open>severity_text\<close> and tests its
  message with \<^verbatim>\<open>in\<close>, and the breadcrumb filter tests its message with \<^verbatim>\<open>in\<close>: on a number
  each of them raises.
\<close>

theorem pipeline_total_counterexample:
  "rename_and_flatten_fields ascii_upper [(''event'', VStr ''hi''), (''level'', VInt 5)] = Inl AttributeError
   \<and> emit ascii_upper (\<lambda>d. d) (\<lambda>d. d) None ScopeFalsy [(''event'', VStr ''hi''), (''level'', VBool True)]
       = Inl AttributeError
   \<and> before_send_log ascii_lower ERROR [(''severity_text'', VInt 5)] = Inl AttributeError
   \<and> before_send_log ascii_lower ERROR [(''logger'', VStr ''uvicorn.access''), (''body'', VInt 5)]
       = Inl TypeError
   \<and> configured_before_breadcrumb INFO
        [(''category'', VStr ''uvicorn.access''), (''message'', VInt 5)] = Inl TypeError"
  by code_simp

text \<open>
  Claim C2 as amended: the normalizer raises exactly when \<open>level\<close> is present and is not
  text; the nester returns on every dictionary; the whole chain returns a line on every
  dictionary whose \<open>level\<close>, when present, is text; the event filter returns on every item
  whose \<open>severity_text\<close>, \<open>body\<close> and formatted log entry are text when present and whose
  \<open>attributes\<close> and \<open>logentry\<close> are mappings when present; the breadcrumb filter returns
  on every breadcrumb whose \<open>message\<close> is text when present; the transaction filter returns
  on every item. The enricher and the metadata stripper return an event by construction.
\<close>

theorem pipeline_total:
  "((\<exists>e. rename_and_flatten_fields upper d = Inl e) \<longleftrightarrow> \<not> text_or_absent d ''level'')
   \<and> (is_dict d \<longrightarrow> (\<exists>out. nest_custom_fields d = Inr out))
   \<and> (is_dict d \<and> text_or_absent d ''level''
        \<longrightarrow> (\<exists>line. emit upper hand_over render sentry_dsn ctx d = Inr line))
   \<and> (log_item_typed item \<longrightarrow> (\<exists>r. before_send_log lower sentry_log_level item = Inr r))
   \<and> (crumb_typed crumb
        \<longrightarrow> (\<exists>r. configured_before_breadcrumb sentry_breadcrumbs_level crumb = Inr r))
   \<and> (\<exists>r. before_send_transaction txn = Inr r)"
proof -
  have 1: "(\<exists>e. rename_and_flatten_fields upper d = Inl e) \<longleftrightarrow> \<not> text_or_absent d ''level''"
    by (rule rename_raises_iff)
  have 2: "is_dict d \<longrightarrow> (\<exists>out. nest_custom_fields d = Inr out)"
    using nest_custom_fields_eq[of d] by blast
  have 3: "is_dict d \<and> text_or_absent d ''level''
        \<longrightarrow> (\<exists>line. emit upper hand_over render sentry_dsn ctx d = Inr line)"
    using emit_returns[of d upper hand_over render sentry_dsn ctx] by blast
  have 4: "log_item_typed item \<longrightarrow> (\<exists>r. before_send_log lower sentry_log_level item = Inr r)"
    using before_send_log_typed[of item lower sentry_log_level] by blast
  have 5: "crumb_typed crumb
        \<longrightarrow> (\<exists>r. configured_before_breadcrumb sentry_breadcrumbs_level crumb = Inr r)"
    using configured_before_breadcrumb_typed[of crumb sentry_breadcrumbs_level] by blast
  have 6: "\<exists>r. before_send_transaction txn = Inr r"
    by (simp add: before_send_transaction_def)
  from 1 2 3 4 5 6 show ?thesis by blast
qed

theorem pipeline_total_witness:
  "is_dict [(''event'', VStr ''hi''), (''level'', VStr ''info''), (''user'', VInt 7)]
   \<and> text_or_absent [(''event'', VStr ''hi''), (''level'', VStr ''info''), (''user'', VInt 7)]
        ''level''
   \<and> (\<exists>line. emit ascii_upper (\<lambda>d. d) (\<lambda>d. d) None ScopeFalsy
                [(''event'', VStr ''hi''), (''level'', VStr ''info''), (''user'', VInt 7)]
              = Inr line)
   \<and> log_item_typed [(''severity_text'', VStr ''error''), (''body'', VStr ''boom'')]
   \<and> (\<exists>r. before_send_log ascii_lower ERROR [(''severity_text'', VStr ''error''), (''body'', VStr ''boom'')]
            = Inr r)
   \<and> crumb_typed [(''level'', VStr ''info''), (''message'', VStr ''m'')]
   \<and> (\<exists>r. configured_before_breadcrumb INFO [(''level'', VStr ''info''), (''message'', VStr ''m'')]
            = Inr r)"
proof -
  have a: "is_dict [(''event'', VStr ''hi''), (''level'', VStr ''info''), (''user'', VInt 7)]"
    by (simp add: is_dict_def)
  have b: "text_or_absent [(''event'', VStr ''hi''), (''level'', VStr ''info''), (''user'', VInt 7)]
        ''level''"
    by (simp add: text_or_absent_def)
  have c: "log_item_typed [(''severity_text'', VStr ''error''), (''body'', VStr ''boom'')]"
    by (simp add: log_item_typed_def text_or_absent_def mapping_or_absent_def)
  have e: "crumb_typed [(''level'', VStr ''info''), (''message'', VStr ''m'')]"
    by (simp add: crumb_typed_def text_or_absent_def)
  show ?thesis
    using a b c e
      pipeline_total[where upper = ascii_upper and lower = ascii_lower
        and d = "[(''event'', VStr ''hi''), (''level'', VStr ''info''), (''user'', VInt 7)]"
        and hand_over = "\<lambda>d. d" and render = "\<lambda>d. d" and sentry_dsn = None
        and ctx = ScopeFalsy
        and item = "[(''severity_text'', VStr ''error''), (''body'', VStr ''boom'')]"
        and sentry_log_level = ERROR
        and crumb = "[(''level'', VStr ''info''), (''message'', VStr ''m'')]"
        and sentry_breadcrumbs_level = INFO and txn = "[]"]
    by blast
qed

section \<open>The event filter without a severity label\<close>

text \<open>
  Claim C10: when \<open>severity_text\<close> is absent or the empty text, the event filter skips the
  severity check: its result is that of the health-check rule alone, whatever the configured
  minimum. On an item of the expected types the item is then either dropped (the rule
  matches) or kept.
\<close>

theorem event_filter_without_severity:
  assumes "map_of item ''severity_text'' = None \<or> map_of item ''severity_text'' = Some (VStr '''')"
  shows "before_send_log lower sentry_log_level item
           = bind_err (is_health_access_log item)
               (\<lambda>health. Inr (if health then None else Some item))
         \<and> before_send_log lower sentry_log_level item = before_send_log lower other_level item
         \<and> (log_item_typed item \<longrightarrow>
              before_send_log lower sentry_log_level item = Inr None
              \<or> before_send_log lower sentry_log_level item = Inr (Some item))"
proof -
  have b: "\<And>lvl. below_sentry_log_level lower lvl item = Inr False"
    using assms by (auto simp: below_sentry_log_level_def dict_get_def)
  have 1: "\<And>lvl. before_send_log lower lvl item
           = bind_err (is_health_access_log item)
               (\<lambda>health. Inr (if health then None else Some item))"
    by (simp add: before_send_log_def b)
  have 3: "log_item_typed item \<longrightarrow>
              before_send_log lower sentry_log_level item = Inr None
              \<or> before_send_log lower sentry_log_level item = Inr (Some item)"
  proof
    assume "log_item_typed item"
    from health_rule_typed[OF this] obtain h where "is_health_access_log item = Inr h" by blast
    then show "before_send_log lower sentry_log_level item = Inr None
              \<or> before_send_log lower sentry_log_level item = Inr (Some item)"
      by (simp add: 1)
  qed
  from 1 3 show ?thesis by simp
qed

theorem event_filter_without_severity_witness:
  "before_send_log ascii_lower CRITICAL
      [(''logger'', VStr ''uvicorn.access''), (''body'', VStr ''GET /health HTTP/1.1 200'')]
     = Inr None
   \<and> before_send_log ascii_lower CRITICAL
      [(''severity_text'', VStr ''''), (''logger'', VStr ''uvicorn.access''),
       (''body'', VStr ''GET /orders HTTP/1.1 200'')]
     = Inr (Some [(''severity_text'', VStr ''''), (''logger'', VStr ''uvicorn.access''),
       (''body'', VStr ''GET /orders HTTP/1.1 200'')])"
proof -
  have a: "map_of [(''logger'', VStr ''uvicorn.access''), (''body'', VStr ''GET /health HTTP/1.1 200'')]
             ''severity_text'' = None
        \<or> map_of [(''logger'', VStr ''uvicorn.access''), (''body'', VStr ''GET /health HTTP/1.1 200'')]
             ''severity_text'' = Some (VStr '''')"
    by simp
  have b: "map_of [(''severity_text'', VStr ''''), (''logger'', VStr ''uvicorn.access''),
       (''body'', VStr ''GET /orders HTTP/1.1 200'')] ''severity_text'' = None
        \<or> map_of [(''severity_text'', VStr ''''), (''logger'', VStr ''uvicorn.access''),
       (''body'', VStr ''GET /orders HTTP/1.1 200'')] ''severity_text'' = Some (VStr '''')"
    by simp
  have h1: "is_health_access_log
      [(''logger'', VStr ''uvicorn.access''), (''body'', VStr ''GET /health HTTP/1.1 200'')]
      = Inr True"
    by code_simp
  have h2: "is_health_access_log
      [(''severity_text'', VStr ''''), (''logger'', VStr ''uvicorn.access''),
       (''body'', VStr ''GET /orders HTTP/1.1 200'')] = Inr False"
    by code_simp
  show ?thesis
    using event_filter_without_severity[OF a, of ascii_lower CRITICAL CRITICAL]
      event_filter_without_severity[OF b, of ascii_lower CRITICAL CRITICAL] h1 h2
    by simp
qed

section \<open>Severity in the event filter and the breadcrumb filter\<close>

lemma event_level_known:
  "event_level ''debug'' = 10" "event_level ''info'' = 20" "event_level ''warn'' = 30"
  "event_level ''warning'' = 30" "event_level ''error'' = 40" "event_level ''fatal'' = 50"
  by (simp_all add: event_level_def severity_map_def DEBUG_def INFO_def WARNING_def ERROR_def
        CRITICAL_def)

lemma event_level_unknown:
  "map_of severity_map label = None \<Longrightarrow> event_level label = event_level ''info''"
  by (simp add: event_level_def severity_map_def INFO_def)

lemma event_level_rank:
  "level_rank a = Some ra \<Longrightarrow> level_rank b = Some rb \<Longrightarrow>
   (event_level a < event_level b \<longleftrightarrow> ra < rb)"
  by (auto simp: level_rank_def event_level_known split: if_splits)

lemma below_level_text:
  "map_of item ''severity_text'' = Some (VStr s) \<Longrightarrow> s \<noteq> [] \<Longrightarrow>
   below_sentry_log_level lower lvl item = Inr (event_level (lower s) < lvl)"
  by (simp add: below_sentry_log_level_def dict_get_def)

lemma level_rank_cases:
  obtains "label = ''debug''" | "label = ''info''" | "label = ''warning''"
    | "label = ''error''" | "label = ''fatal''"
    | "level_rank label = None" "label \<notin> set breadcrumb_levels"
proof (cases "label \<in> set breadcrumb_levels")
  case True
  then show ?thesis using that by (auto simp: breadcrumb_levels_def)
next
  case False
  then have "level_rank label = None"
    by (simp add: breadcrumb_levels_def level_rank_def)
  then show ?thesis using False that by blast
qed

lemma level_rank_known:
  "level_rank ''debug'' = Some 0" "level_rank ''info'' = Some 1"
  "level_rank ''warning'' = Some 2" "level_rank ''error'' = Some 3"
  "level_rank ''fatal'' = Some 4"
  by (simp_all add: level_rank_def)

lemma suffix_iff_rank:
  "i \<le> 4 \<Longrightarrow>
   label \<in> set (drop i breadcrumb_levels)
     \<longleftrightarrow> (case level_rank label of None \<Rightarrow> False | Some r \<Rightarrow> i \<le> r)"
proof -
  assume "i \<le> 4"
  then consider "i = 0" | "i = 1" | "i = 2" | "i = 3" | "i = 4" by linarith
  then show ?thesis
  proof cases
    case 1
    show ?thesis unfolding 1
      by (rule level_rank_cases[of label]) (simp_all add: level_rank_known breadcrumb_levels_def)
  next
    case 2
    show ?thesis unfolding 2
      by (rule level_rank_cases[of label]) (simp_all add: level_rank_known breadcrumb_levels_def)
  next
    case 3
    show ?thesis unfolding 3
      by (rule level_rank_cases[of label]) (simp_all add: level_rank_known breadcrumb_levels_def)
  next
    case 4
    show ?thesis unfolding 4
      by (rule level_rank_cases[of label]) (simp_all add: level_rank_known breadcrumb_levels_def)
  next
    case 5
    show ?thesis unfolding 5
      by (rule level_rank_cases[of label]) (simp_all add: level_rank_known breadcrumb_levels_def)
  qed
qed

lemma min_level_cases:
  obtains "min_breadcrumb_level lvl = ''debug''" | "min_breadcrumb_level lvl = ''info''"
    | "min_breadcrumb_level lvl = ''warning''" | "min_breadcrumb_level lvl = ''error''"
    | "min_breadcrumb_level lvl = ''fatal''"
  using min_breadcrumb_level_cases[of lvl] by (auto split: if_splits)

lemma allowed_as_suffix:
  "\<exists>m. level_rank (min_breadcrumb_level lvl) = Some m \<and> m \<le> 4
       \<and> allowed_breadcrumb_levels lvl = Inr (drop m breadcrumb_levels)"
proof (rule min_level_cases[of lvl])
  assume a: "min_breadcrumb_level lvl = ''debug''"
  show ?thesis
    by (simp add: allowed_breadcrumb_levels_def a level_rank_known breadcrumb_levels_def)
next
  assume a: "min_breadcrumb_level lvl = ''info''"
  show ?thesis
    by (simp add: allowed_breadcrumb_levels_def a level_rank_known breadcrumb_levels_def)
next
  assume a: "min_breadcrumb_level lvl = ''warning''"
  show ?thesis
    by (simp add: allowed_breadcrumb_levels_def a level_rank_known breadcrumb_levels_def)
next
  assume a: "min_breadcrumb_level lvl = ''error''"
  show ?thesis
    by (simp add: allowed_breadcrumb_levels_def a level_rank_known breadcrumb_levels_def)
next
  assume a: "min_breadcrumb_level lvl = ''fatal''"
  show ?thesis
    by (simp add: allowed_breadcrumb_levels_def a level_rank_known breadcrumb_levels_def)
qed

lemma before_send_log_text:
  "map_of item ''severity_text'' = Some (VStr s) \<Longrightarrow> s \<noteq> [] \<Longrightarrow>
   before_send_log lower lvl item =
     (if event_level (lower s) < lvl then Inr None
      else bind_err (is_health_access_log item)
             (\<lambda>health. Inr (if health then None else Some item)))"
  by (simp add: before_send_log_def below_level_text)

lemma member_iff_rank:
  assumes "m \<le> 4"
  shows "v \<in> set (map VStr (drop m breadcrumb_levels))
           \<longleftrightarrow> (case label_rank v of None \<Rightarrow> False | Some r \<Rightarrow> m \<le> r)"
proof (cases v)
  case (VStr l)
  have "VStr l \<in> set (map VStr (drop m breadcrumb_levels))
          \<longleftrightarrow> l \<in> set (drop m breadcrumb_levels)" by auto
  then show ?thesis using suffix_iff_rank[OF assms, of l] VStr by simp
qed auto

lemma breadcrumb_leveled:
  assumes l: "map_of crumb ''level'' = Some v" and nn: "v \<noteq> VNone"
  shows "\<exists>m. level_rank (min_breadcrumb_level lvl) = Some m
           \<and> configured_before_breadcrumb lvl crumb =
               bind_err (is_health_crumb crumb)
                 (\<lambda>health. Inr (if health then None
                     else (case label_rank v of None \<Rightarrow> None
                           | Some r \<Rightarrow> if m \<le> r then Some crumb else None)))"
proof -
  from allowed_as_suffix[of lvl] obtain m where
    m: "level_rank (min_breadcrumb_level lvl) = Some m" and m4: "m \<le> 4"
    and a: "allowed_breadcrumb_levels lvl = Inr (drop m breadcrumb_levels)" by blast
  have g: "dict_get crumb ''level'' VNone = v" using l by (simp add: dict_get_def)
  have keep: "(if v \<in> set (map VStr (drop m breadcrumb_levels)) then Some crumb else None)
         = (case label_rank v of None \<Rightarrow> None
            | Some r \<Rightarrow> if m \<le> r then Some crumb else None)"
    using member_iff_rank[OF m4, of v] by (simp split: option.splits)
  have "configured_before_breadcrumb lvl crumb =
               bind_err (is_health_crumb crumb)
                 (\<lambda>health. Inr (if health then None
                     else (case label_rank v of None \<Rightarrow> None
                           | Some r \<Rightarrow> if m \<le> r then Some crumb else None)))"
  proof (cases "is_health_crumb crumb")
    case (Inl e)
    then show ?thesis
      by (simp add: configured_before_breadcrumb_def a before_breadcrumb_def)
  next
    case (Inr health)
    then show ?thesis
      using nn keep
      by (simp add: configured_before_breadcrumb_def a before_breadcrumb_def g Let_def)
  qed
  with m show ?thesis by blast
qed

text \<open>
  Claim C6 says that both filters compare severities in the order debug, info, warning,
  error, fatal and treat an unrecognized label as info. The breadcrumb filter keeps a
  breadcrumb with a level only when the level is a member of the list of allowed labels, so
  a label outside the five is dropped whatever the minimum: with the minimum at info (and
  at debug) a breadcrumb labelled \<^verbatim>\<open>notice\<close> is dropped while one labelled \<^verbatim>\<open>info\<close> is kept.
\<close>

theorem severity_order_counterexample:
  "configured_before_breadcrumb INFO [(''level'', VStr ''notice''), (''message'', VStr ''m'')]
     = Inr None
   \<and> configured_before_breadcrumb INFO [(''level'', VStr ''info''), (''message'', VStr ''m'')]
     = Inr (Some [(''level'', VStr ''info''), (''message'', VStr ''m'')])
   \<and> configured_before_breadcrumb DEBUG [(''level'', VStr ''notice''), (''message'', VStr ''m'')]
     = Inr None"
  by code_simp

text \<open>
  Claim C6 as amended. The table of the event filter orders the five levels as debug, info,
  warning, error, fatal (with \<^verbatim>\<open>warn\<close> equal to warning) and gives a label outside the table the
  level of info. On an item whose \<open>severity_text\<close> is a non-empty text the event filter drops
  the item when the level of the lower-cased label is below the configured minimum, and
  otherwise decides by its health-check rule alone. On a breadcrumb that carries a level
  other than \<^verbatim>\<open>None\<close> the breadcrumb filter first applies its health-check rule, which drops a
  matching access-log breadcrumb; any other such breadcrumb, access-log or not, is kept
  exactly when its level is a text equal to one of the five labels that stands at or above
  the label of the configured minimum in the same order, and is dropped when its level is
  outside the five labels.
\<close>

theorem severity_order:
  "(level_rank a = Some ra \<and> level_rank b = Some rb
      \<longrightarrow> (event_level a < event_level b \<longleftrightarrow> ra < rb))
   \<and> event_level ''warn'' = event_level ''warning''
   \<and> (map_of severity_map label = None \<longrightarrow> event_level label = event_level ''info'')
   \<and> (map_of item ''severity_text'' = Some (VStr s) \<and> s \<noteq> []
        \<longrightarrow> before_send_log lower sentry_log_level item =
              (if event_level (lower s) < sentry_log_level then Inr None
               else bind_err (is_health_access_log item)
                      (\<lambda>health. Inr (if health then None else Some item))))
   \<and> (map_of crumb ''level'' = Some v \<and> v \<noteq> VNone
      \<longrightarrow> (\<exists>m. level_rank (min_breadcrumb_level sentry_breadcrumbs_level) = Some m
            \<and> configured_before_breadcrumb sentry_breadcrumbs_level crumb =
                bind_err (is_health_crumb crumb)
                  (\<lambda>health. Inr (if health then None
                      else (case label_rank v of None \<Rightarrow> None
                            | Some r \<Rightarrow> if m \<le> r then Some crumb else None)))))"
proof -
  have 1: "level_rank a = Some ra \<and> level_rank b = Some rb
      \<longrightarrow> (event_level a < event_level b \<longleftrightarrow> ra < rb)"
    using event_level_rank[of a ra b rb] by blast
  have 2: "event_level ''warn'' = event_level ''warning''"
    by (simp add: event_level_known)
  have 3: "map_of severity_map label = None \<longrightarrow> event_level label = event_level ''info''"
    using event_level_unknown[of label] by blast
  have 4: "map_of item ''severity_text'' = Some (VStr s) \<and> s \<noteq> []
        \<longrightarrow> before_send_log lower sentry_log_level item =
              (if event_level (lower s) < sentry_log_level then Inr None
               else bind_err (is_health_access_log item)
                      (\<lambda>health. Inr (if health then None else Some item)))"
    using before_send_log_text[of item s lower sentry_log_level] by blast
  have 5: "map_of crumb ''level'' = Some v \<and> v \<noteq> VNone
      \<longrightarrow> (\<exists>m. level_rank (min_breadcrumb_level sentry_breadcrumbs_level) = Some m
            \<and> configured_before_breadcrumb sentry_breadcrumbs_level crumb =
                bind_err (is_health_crumb crumb)
                  (\<lambda>health. Inr (if health then None
                      else (case label_rank v of None \<Rightarrow> None
                            | Some r \<Rightarrow> if m \<le> r then Some crumb else None))))"
    using breadcrumb_leveled[of crumb v sentry_breadcrumbs_level] by blast
  from 1 2 3 4 5 show ?thesis by blast
qed

theorem severity_order_witness:
  "event_level ''error'' < event_level ''fatal''
   \<and> event_level ''notice'' = event_level ''info''
   \<and> before_send_log ascii_lower ERROR [(''severity_text'', VStr ''Warning'')] = Inr None
   \<and> before_send_log ascii_lower INFO [(''severity_text'', VStr ''Notice'')]
       = Inr (Some [(''severity_text'', VStr ''Notice'')])
   \<and> configured_before_breadcrumb WARNING [(''level'', VStr ''error''), (''message'', VStr ''m'')]
       = Inr (Some [(''level'', VStr ''error''), (''message'', VStr ''m'')])
   \<and> configured_before_breadcrumb ERROR
        [(''category'', VStr ''uvicorn.access''), (''message'', VStr ''GET /orders HTTP/1.1''),
         (''level'', VStr ''debug'')]
       = Inr None"
proof -
  have r: "level_rank ''error'' = Some 3 \<and> level_rank ''fatal'' = Some 4"
    by (simp add: level_rank_known)
  have u: "map_of severity_map ''notice'' = None" by (simp add: severity_map_def)
  have t1: "map_of [(''severity_text'', VStr ''Warning'')] ''severity_text''
             = Some (VStr ''Warning'') \<and> ''Warning'' \<noteq> []" by simp
  have t2: "map_of [(''severity_text'', VStr ''Notice'')] ''severity_text''
             = Some (VStr ''Notice'') \<and> ''Notice'' \<noteq> []" by simp
  have lw: "event_level (ascii_lower ''Warning'') < ERROR" by code_simp
  have ln: "\<not> event_level (ascii_lower ''Notice'') < INFO" by code_simp
  have hn: "is_health_access_log [(''severity_text'', VStr ''Notice'')] = Inr False"
    by code_simp
  have c1: "map_of [(''level'', VStr ''error''), (''message'', VStr ''m'')] ''level''
              = Some (VStr ''error'') \<and> VStr ''error'' \<noteq> VNone"
    by simp
  have c2: "map_of [(''category'', VStr ''uvicorn.access''),
                    (''message'', VStr ''GET /orders HTTP/1.1''), (''level'', VStr ''debug'')]
              ''level'' = Some (VStr ''debug'') \<and> VStr ''debug'' \<noteq> VNone"
    by simp
  have h1: "is_health_crumb [(''level'', VStr ''error''), (''message'', VStr ''m'')] = Inr False"
    by code_simp
  have h2: "is_health_crumb [(''category'', VStr ''uvicorn.access''),
                    (''message'', VStr ''GET /orders HTTP/1.1''), (''level'', VStr ''debug'')]
              = Inr False"
    by code_simp
  have mw: "level_rank (min_breadcrumb_level WARNING) = Some 2"
    by (simp add: min_breadcrumb_level_cases WARNING_def level_rank_known)
  have me: "level_rank (min_breadcrumb_level ERROR) = Some 3"
    by (simp add: min_breadcrumb_level_cases ERROR_def level_rank_known)
  note s1 = severity_order[where a = "''error''" and ra = 3 and b = "''fatal''" and rb = 4
      and label = "''notice''" and lower = ascii_lower
      and item = "[(''severity_text'', VStr ''Warning'')]" and s = "''Warning''"
      and sentry_log_level = ERROR
      and crumb = "[(''level'', VStr ''error''), (''message'', VStr ''m'')]"
      and v = "VStr ''error''" and sentry_breadcrumbs_level = WARNING]
  note s2 = severity_order[where a = "''error''" and ra = 3 and b = "''fatal''" and rb = 4
      and label = "''notice''" and lower = ascii_lower
      and item = "[(''severity_text'', VStr ''Notice'')]" and s = "''Notice''"
      and sentry_log_level = INFO
      and crumb = "[(''category'', VStr ''uvicorn.access''),
                    (''message'', VStr ''GET /orders HTTP/1.1''), (''level'', VStr ''debug'')]"
      and v = "VStr ''debug''" and sentry_breadcrumbs_level = ERROR]
  show ?thesis
    using s1 s2 r u t1 t2 lw ln hn c1 c2 h1 h2 mw me by (simp add: level_rank_known)
qed

end
